theory Spec2Isabelle
  imports Complex_Main "HOL-Library.AList"
begin

section \<open>Errors\<close>

text \<open>
  Exceptions are values. \<open>ValueError\<close> is what Python's \<open>min\<close> raises on an empty
  sequence, \<open>KeyError\<close> what a missing dictionary key raises; \<open>ProviderError\<close> stands
  for any exception of the embedding provider and \<open>ServiceError\<close> for any exception of
  the collection service (all of them subclasses of \<open>Exception\<close>).
\<close>

datatype error = ValueError | KeyError | ProviderError | ServiceError

section \<open>Strings and floats of Python\<close>

subsection \<open>Strings\<close>

text \<open>
  A \<open>char\<close> is a code point below 256. On this range \<open>str.lower\<close> maps \<open>A..Z\<close> and
  the Latin-1 capitals \<open>0xC0..0xDE\<close> (without the multiplication sign \<open>0xD7\<close>) to the
  letter 32 places further, and \<open>str.strip\<close> removes the code points for which
  \<open>str.isspace\<close> holds: \<open>0x09..0x0D\<close>, \<open>0x1C..0x20\<close>, \<open>0x85\<close> and \<open>0xA0\<close>.
\<close>

definition lower_char :: "char \<Rightarrow> char" where
  "lower_char c =
     (let n = (of_char c :: nat)
      in if (65 \<le> n \<and> n \<le> 90) \<or> (192 \<le> n \<and> n \<le> 222 \<and> n \<noteq> 215)
         then char_of (n + 32) else c)"

definition isspace :: "char \<Rightarrow> bool" where
  "isspace c =
     (let n = (of_char c :: nat)
      in (9 \<le> n \<and> n \<le> 13) \<or> (28 \<le> n \<and> n \<le> 32) \<or> n = 133 \<or> n = 160)"

definition lower :: "string \<Rightarrow> string" where
  "lower s = map lower_char s"

definition strip :: "string \<Rightarrow> string" where
  "strip s = rev (dropWhile isspace (rev (dropWhile isspace s)))"

text \<open>\<open>str\<close> of an integer, as an f-string formats it.\<close>

fun str_nat :: "nat \<Rightarrow> string" where
  "str_nat n =
     (if n < 10 then [char_of (48 + n)]
      else str_nat (n div 10) @ [char_of (48 + n mod 10)])"

declare str_nat.simps [simp del]

definition str_int :: "int \<Rightarrow> string" where
  "str_int i = (if i < 0 then CHR ''-'' # str_nat (nat (- i)) else str_nat (nat i))"

subsection \<open>Floats\<close>

text \<open>
  A Python float is an IEEE 754 double, here the real number it denotes. Every
  operation returns the double nearest to the exact result, a tie going to the even
  mantissa: the exact result is scaled by its unit in the last place (53 bits of
  mantissa, the exponent not below -1022, so that subnormal numbers are covered),
  rounded to an integer and scaled back. \<open>int / int\<close> rounds the exact quotient in
  this way, and \<open>float * float\<close> the exact product. A result of \<open>2 ^ 1024\<close> or more
  overflows in Python; the quotients and products of \<open>get_stats\<close> stay far below
  that as long as the counters are not negative.
\<close>

definition round_half_even :: "real \<Rightarrow> int" where
  "round_half_even y =
     (let f = \<lfloor>y\<rfloor>; d = y - real_of_int f
      in if d < 1 / 2 then f
         else if d > 1 / 2 then f + 1
         else if even f then f else f + 1)"

text \<open>The binary exponent of \<open>x\<close>: from 0 upwards when \<open>1 \<le> x\<close>, from -1 downwards else.\<close>

function exponent_up :: "nat \<Rightarrow> real \<Rightarrow> nat" where
  "exponent_up n x = (if x < 2 ^ Suc n \<or> 1023 \<le> n then n else exponent_up (Suc n) x)"
  by pat_completeness auto
termination
  by (relation "measure (\<lambda>(n, x). 1023 - n)") auto

function exponent_down :: "nat \<Rightarrow> real \<Rightarrow> nat" where
  "exponent_down n x = (if 1 \<le> x * 2 ^ n \<or> 1022 \<le> n then n else exponent_down (Suc n) x)"
  by pat_completeness auto
termination
  by (relation "measure (\<lambda>(n, x). 1022 - n)") auto

declare exponent_up.simps [simp del] exponent_down.simps [simp del]

definition exponent :: "real \<Rightarrow> int" where
  "exponent x = (if 1 \<le> x then int (exponent_up 0 x) else - int (exponent_down 1 x))"

definition double_round :: "real \<Rightarrow> real" where
  "double_round x =
     (if x = 0 then 0
      else let ulp = 2 powi (exponent \<bar>x\<bar> - 52)
           in sgn x * (real_of_int (round_half_even (\<bar>x\<bar> / ulp)) * ulp))"

text \<open>
  The format \<open>:.2f\<close> prints the decimal with two places nearest to the exact value of
  the double, a tie going to the even digit.
\<close>

definition format_2f :: "real \<Rightarrow> string" where
  "format_2f x =
     (let n = nat (round_half_even (\<bar>x\<bar> * 100))
      in (if x < 0 then ''-'' else []) @ str_nat (n div 100) @ ''.''
           @ [char_of (48 + n div 10 mod 10), char_of (48 + n mod 10)])"

section \<open>cache_manager.py\<close>

subsection \<open>CacheEntry\<close>

text \<open>
  \<open>time.time()\<close> is the explicit argument \<open>now\<close> of every operation that reads the
  clock. Times and durations are Python floats; they are modelled as reals, and the
  code only subtracts and compares them.
\<close>

record 'a cache_entry =
  data :: 'a
  timestamp :: real
  ttl :: real

definition is_expired :: "'a cache_entry \<Rightarrow> real \<Rightarrow> bool" where
  "is_expired entry now = (now - timestamp entry > ttl entry)"

subsection \<open>QueryCache\<close>

text \<open>
  The dictionary \<open>self.cache\<close> is an association list in insertion order, the order
  in which Python iterates over it (and so the order in which \<open>min\<close> breaks ties):
  assigning to a key that is present keeps its place, assigning to a new key appends
  it (\<open>AList.update\<close>), and \<open>del\<close> removes it (\<open>AList.delete\<close>).
\<close>

record 'a query_cache =
  cache :: "(string \<times> 'a cache_entry) list"
  max_size :: int
  default_ttl :: real
  hits :: int
  misses :: int

definition init :: "int \<Rightarrow> real \<Rightarrow> 'a query_cache" where
  "init max_size' default_ttl' =
     \<lparr>cache = [], max_size = max_size', default_ttl = default_ttl', hits = 0, misses = 0\<rparr>"

text \<open>
  \<open>digest q k\<close> stands for
  \<open>hashlib.md5(json.dumps({"query": q, "top_k": k}, sort_keys=True).encode()).hexdigest()\<close>,
  library code that is a parameter of the model; nothing is assumed about it.
\<close>

type_synonym digest = "string \<Rightarrow> int \<Rightarrow> string"

definition generate_key :: "digest \<Rightarrow> string \<Rightarrow> int \<Rightarrow> string" where
  "generate_key digest query top_k = digest (strip (lower query)) top_k"

definition get ::
  "digest \<Rightarrow> 'a query_cache \<Rightarrow> string \<Rightarrow> int \<Rightarrow> real \<Rightarrow> 'a option \<times> 'a query_cache" where
  "get digest c query top_k now =
     (let key = generate_key digest query top_k
      in case map_of (cache c) key of
           Some entry \<Rightarrow>
             if \<not> is_expired entry now
             then (Some (data entry), c\<lparr>hits := hits c + 1\<rparr>)
             else (None, c\<lparr>cache := AList.delete key (cache c), misses := misses c + 1\<rparr>)
         | None \<Rightarrow> (None, c\<lparr>misses := misses c + 1\<rparr>))"

text \<open>
  \<open>min(keys, key=...)\<close> keeps the first item whose timestamp is smallest: a later
  item replaces the best one only when it is strictly smaller. On an empty dictionary
  it raises \<open>ValueError\<close>.
\<close>

fun min_item ::
  "(string \<times> 'a cache_entry) \<Rightarrow> (string \<times> 'a cache_entry) list \<Rightarrow> (string \<times> 'a cache_entry)" where
  "min_item best [] = best"
| "min_item best (x # xs) =
     (if timestamp (snd x) < timestamp (snd best) then min_item x xs else min_item best xs)"

fun oldest_key :: "(string \<times> 'a cache_entry) list \<Rightarrow> error + string" where
  "oldest_key [] = Inl ValueError"
| "oldest_key (x # xs) = Inr (fst (min_item x xs))"

text \<open>\<open>ttl or self.default_ttl\<close>: \<open>None\<close> and \<open>0\<close> are both falsy.\<close>

definition ttl_or_default :: "'a query_cache \<Rightarrow> real option \<Rightarrow> real" where
  "ttl_or_default c ttl' =
     (case ttl' of None \<Rightarrow> default_ttl c | Some t \<Rightarrow> if t = 0 then default_ttl c else t)"

text \<open>
  \<open>put\<close> raises only from \<open>min\<close>, before it has changed anything: \<open>Inl\<close> leaves the
  cache as it was.
\<close>

definition put ::
  "digest \<Rightarrow> 'a query_cache \<Rightarrow> string \<Rightarrow> 'a \<Rightarrow> int \<Rightarrow> real option \<Rightarrow> real
     \<Rightarrow> error + 'a query_cache" where
  "put digest c query result top_k ttl' now =
     (let key = generate_key digest query top_k;
          entry = \<lparr>data = result, timestamp = now, ttl = ttl_or_default c ttl'\<rparr>
      in if int (length (cache c)) \<ge> max_size c
         then (case oldest_key (cache c) of
                 Inl e \<Rightarrow> Inl e
               | Inr oldest \<Rightarrow>
                   Inr (c\<lparr>cache := AList.update key entry (AList.delete oldest (cache c))\<rparr>))
         else Inr (c\<lparr>cache := AList.update key entry (cache c)\<rparr>))"

definition clear :: "'a query_cache \<Rightarrow> 'a query_cache" where
  "clear c = c\<lparr>cache := [], hits := 0, misses := 0\<rparr>"

text \<open>
  The dictionary that \<open>get_stats\<close> returns. \<open>self.hits / total_requests * 100\<close> is a
  division of two integers and a multiplication of doubles; without requests the
  integer 0 is formatted.
\<close>

record stats =
  stat_hits :: int
  stat_misses :: int
  hit_rate :: string
  cache_size :: nat
  stat_max_size :: int

definition hit_rate_value :: "'a query_cache \<Rightarrow> real" where
  "hit_rate_value c =
     (let total_requests = hits c + misses c
      in if total_requests > 0
         then double_round
                (double_round (real_of_int (hits c) / real_of_int total_requests) * 100)
         else 0)"

definition get_stats :: "'a query_cache \<Rightarrow> stats" where
  "get_stats c =
     \<lparr>stat_hits = hits c,
      stat_misses = misses c,
      hit_rate = format_2f (hit_rate_value c) @ ''%'',
      cache_size = length (cache c),
      stat_max_size = max_size c\<rparr>"

text \<open>
  A sequence of \<open>put\<close> calls, each with its own arguments and its own reading of the
  clock. A call that raises leaves the cache as it was, and the next call goes on
  from there.
\<close>

type_synonym 'a put_call = "string \<times> 'a \<times> int \<times> real option \<times> real"

fun puts :: "digest \<Rightarrow> 'a query_cache \<Rightarrow> 'a put_call list \<Rightarrow> 'a query_cache" where
  "puts digest c [] = c"
| "puts digest c ((query, result, top_k, ttl', now) # ps) =
     (case put digest c query result top_k ttl' now of
        Inl e \<Rightarrow> puts digest c ps
      | Inr c' \<Rightarrow> puts digest c' ps)"

section \<open>vector_store_manager.py\<close>

subsection \<open>Documents and records\<close>

text \<open>
  A metadata dictionary maps strings to scalars. A LangChain \<open>Document\<close> has a
  \<open>page_content\<close> and a \<open>metadata\<close>; the dictionary built for insertion has the keys
  \<open>_id\<close>, \<open>content\<close>, \<open>metadata\<close> and \<open>embedding\<close>.
\<close>

datatype scalar = SStr string | SInt int | SNum real

type_synonym metadata = "string \<rightharpoonup> scalar"

record document =
  page_content :: string
  metadata :: metadata

record doc_dict =
  doc_id :: string
  content :: string
  doc_metadata :: metadata
  embedding :: "real list"

text \<open>
  A dictionary that a search of the collection returns. Any of its keys may be
  missing: \<open>result["content"]\<close> raises \<open>KeyError\<close> then, while
  \<open>result.get("metadata", {})\<close> and \<open>result.get("score", 0)\<close> take the default.
\<close>

record raw_result =
  r_content :: "string option"
  r_metadata :: "metadata option"
  r_score :: "scalar option"

subsection \<open>The collaborators\<close>

text \<open>
  The embedding provider and the collection service are parameters of the model. A
  write returns the exception it raised, if any, and the collection it left (a bulk
  insert that raises may have written some records); a read returns its result or the
  exception.
\<close>

record 'db service =
  embed_documents :: "string list \<Rightarrow> error + real list list"
  embed_query :: "string \<Rightarrow> error + real list"
  insert_many :: "doc_dict list \<Rightarrow> 'db \<Rightarrow> error option \<times> 'db"
  insert_one :: "doc_dict \<Rightarrow> 'db \<Rightarrow> error option \<times> 'db"
  aggregate :: "real list \<Rightarrow> int \<Rightarrow> 'db \<Rightarrow> error + raw_result list"
  find_text :: "string \<Rightarrow> int \<Rightarrow> 'db \<Rightarrow> error + raw_result list"
  delete_many :: "'db \<Rightarrow> error option \<times> 'db"

text \<open>
  The state of a \<open>CosmosDBVectorStore\<close>: the collection behind \<open>self.collection\<close>,
  and the calls made to the collaborators so far, in order (\<open>InsertMany\<close> and
  \<open>InsertOne\<close> carry the \<open>_id\<close>s of the records sent).
\<close>

datatype event =
    EmbedDocuments "string list"
  | EmbedQuery string
  | InsertMany "string list"
  | InsertOne string
  | Aggregate "real list" int
  | FindText string int
  | DeleteMany

record 'db vector_store =
  collection :: 'db
  calls :: "event list"

definition called :: "event \<Rightarrow> 'db vector_store \<Rightarrow> 'db vector_store" where
  "called ev s = s\<lparr>calls := calls s @ [ev]\<rparr>"

subsection \<open>add_documents\<close>

text \<open>
  \<open>ids[i] if ids and i < len(ids) else f"doc_{i}_{hash(doc.page_content)}"\<close>.
  \<open>hash\<close> is Python's built-in hash of a string, a parameter of the model.
\<close>

definition choose_id :: "(string \<Rightarrow> int) \<Rightarrow> string list option \<Rightarrow> nat \<Rightarrow> document \<Rightarrow> string" where
  "choose_id hash ids i doc =
     (let default = ''doc_'' @ str_int (int i) @ ''_'' @ str_int (hash (page_content doc))
      in case ids of
           None \<Rightarrow> default
         | Some l \<Rightarrow> if l \<noteq> [] \<and> i < length l then l ! i else default)"

text \<open>The loop over \<open>enumerate(zip(documents, embeddings))\<close>, from index \<open>i\<close> on.\<close>

fun prepare ::
  "(string \<Rightarrow> int) \<Rightarrow> string list option \<Rightarrow> nat \<Rightarrow> (document \<times> real list) list \<Rightarrow> doc_dict list" where
  "prepare hash ids i [] = []"
| "prepare hash ids i ((doc, emb) # rest) =
     \<lparr>doc_id = choose_id hash ids i doc,
      content = page_content doc,
      doc_metadata = metadata doc,
      embedding = emb\<rparr> # prepare hash ids (Suc i) rest"

text \<open>The fallback loop: one \<open>insert_one\<close> per record, every exception passed over.\<close>

fun insert_each :: "'db service \<Rightarrow> doc_dict list \<Rightarrow> 'db vector_store \<Rightarrow> 'db vector_store" where
  "insert_each svc [] s = s"
| "insert_each svc (doc # docs) s =
     (case insert_one svc doc (collection s) of
        (r, db') \<Rightarrow> insert_each svc docs (called (InsertOne (doc_id doc)) (s\<lparr>collection := db'\<rparr>)))"

definition add_documents ::
  "'db service \<Rightarrow> (string \<Rightarrow> int) \<Rightarrow> document list \<Rightarrow> string list option \<Rightarrow> 'db vector_store
     \<Rightarrow> (error + string list) \<times> 'db vector_store" where
  "add_documents svc hash documents ids s =
     (if documents = [] then (Inr [], s)
      else
        let texts = map page_content documents;
            s1 = called (EmbedDocuments texts) s
        in case embed_documents svc texts of
             Inl e \<Rightarrow> (Inl e, s1)
           | Inr embeddings \<Rightarrow>
               let docs_to_insert = prepare hash ids 0 (zip documents embeddings);
                   inserted_ids = map doc_id docs_to_insert
               in if docs_to_insert \<noteq> []
                  then (case insert_many svc docs_to_insert (collection s1) of
                          (None, db') \<Rightarrow>
                            (Inr inserted_ids,
                             called (InsertMany inserted_ids) (s1\<lparr>collection := db'\<rparr>))
                        | (Some e, db') \<Rightarrow>
                            (Inr inserted_ids,
                             insert_each svc docs_to_insert
                               (called (InsertMany inserted_ids) (s1\<lparr>collection := db'\<rparr>))))
                  else (Inr inserted_ids, s1))"

subsection \<open>similarity_search and _fallback_search\<close>

definition to_scored_document :: "raw_result \<Rightarrow> error + document" where
  "to_scored_document result =
     (case r_content result of
        None \<Rightarrow> Inl KeyError
      | Some c \<Rightarrow>
          Inr \<lparr>page_content = c,
               metadata = (case r_metadata result of None \<Rightarrow> Map.empty | Some m \<Rightarrow> m)
                 (''score'' \<mapsto> (case r_score result of None \<Rightarrow> SInt 0 | Some x \<Rightarrow> x))\<rparr>)"

definition to_document :: "raw_result \<Rightarrow> error + document" where
  "to_document result =
     (case r_content result of
        None \<Rightarrow> Inl KeyError
      | Some c \<Rightarrow>
          Inr \<lparr>page_content = c,
               metadata = (case r_metadata result of None \<Rightarrow> Map.empty | Some m \<Rightarrow> m)\<rparr>)"

text \<open>The loop that converts the results; the first exception ends it.\<close>

fun convert :: "(raw_result \<Rightarrow> error + document) \<Rightarrow> raw_result list \<Rightarrow> error + document list" where
  "convert f [] = Inr []"
| "convert f (result # results) =
     (case f result of
        Inl e \<Rightarrow> Inl e
      | Inr doc \<Rightarrow> (case convert f results of Inl e \<Rightarrow> Inl e | Inr docs \<Rightarrow> Inr (doc # docs)))"

definition fallback_search ::
  "'db service \<Rightarrow> string \<Rightarrow> int \<Rightarrow> 'db vector_store \<Rightarrow> document list \<times> 'db vector_store" where
  "fallback_search svc query k s =
     (let s1 = called (FindText query k) s
      in case find_text svc query k (collection s) of
           Inl e \<Rightarrow> ([], s1)
         | Inr results \<Rightarrow>
             (case convert to_document results of
                Inl e \<Rightarrow> ([], s1)
              | Inr documents \<Rightarrow> (documents, s1)))"

text \<open>\<open>embed_query\<close> is called before the \<open>try\<close>: its exception leaves the function.\<close>

definition similarity_search ::
  "'db service \<Rightarrow> string \<Rightarrow> int \<Rightarrow> 'db vector_store
     \<Rightarrow> (error + document list) \<times> 'db vector_store" where
  "similarity_search svc query k s =
     (let s1 = called (EmbedQuery query) s
      in case embed_query svc query of
           Inl e \<Rightarrow> (Inl e, s1)
         | Inr query_embedding \<Rightarrow>
             let s2 = called (Aggregate query_embedding k) s1
             in case aggregate svc query_embedding k (collection s) of
                  Inl e \<Rightarrow> (case fallback_search svc query k s2 of (docs, s3) \<Rightarrow> (Inr docs, s3))
                | Inr results \<Rightarrow>
                    (case convert to_scored_document results of
                       Inl e \<Rightarrow>
                         (case fallback_search svc query k s2 of (docs, s3) \<Rightarrow> (Inr docs, s3))
                     | Inr documents \<Rightarrow> (Inr documents, s2)))"

subsection \<open>delete_all\<close>


section \<open>rag_chain.py\<close>

text \<open>
  A \<open>RAGSystem\<close> holds the configuration and the vector store (the language model
  and the document processor play no part below); it has no cache attribute, and
  \<open>rag_chain.py\<close> does not import \<open>cache_manager\<close>. The retriever of
  \<open>_create_retriever\<close> holds the system's vector store and \<open>config.top_k_results\<close>.
\<close>

record rag_config =
  top_k_results :: int

record 'db rag_system =
  config :: rag_config
  vector_store :: "'db vector_store"

definition get_relevant_documents ::
  "'db service \<Rightarrow> 'db rag_system \<Rightarrow> string \<Rightarrow> (error + document list) \<times> 'db rag_system" where
  "get_relevant_documents svc sys query =
     (case similarity_search svc query (top_k_results (config sys)) (vector_store sys) of
        (r, vs) \<Rightarrow> (r, sys\<lparr>vector_store := vs\<rparr>))"



section \<open>An in-memory collection service\<close>

text \<open>
  A stand-in for the collaborators, with switches for the failures they can show. The
  collection is the list of stored records. \<open>insert_one\<close> refuses a record whose
  \<open>_id\<close> is stored already or is listed in \<open>rejected\<close>; an unordered \<open>insert_many\<close>
  writes nothing when \<open>bulk_down\<close>, and otherwise writes every record it can and
  raises if one was refused. The vector search returns the first \<open>k\<close> stored records
  with score 1, the text search the first \<open>k\<close> records whose content contains the
  query; an embedding is the length of the text.
\<close>

record faults =
  embed_down :: bool
  bulk_down :: bool
  rejected :: "string list"
  vector_down :: bool
  text_down :: bool
  delete_down :: bool

definition no_faults :: faults where
  "no_faults = \<lparr>embed_down = False, bulk_down = False, rejected = [], vector_down = False,
     text_down = False, delete_down = False\<rparr>"

fun starts_with :: "string \<Rightarrow> string \<Rightarrow> bool" where
  "starts_with [] s = True"
| "starts_with (p # ps) [] = False"
| "starts_with (p # ps) (c # cs) = (p = c \<and> starts_with ps cs)"

fun contains :: "string \<Rightarrow> string \<Rightarrow> bool" where
  "contains p [] = (p = [])"
| "contains p (c # cs) = (starts_with p (c # cs) \<or> contains p cs)"

definition mem_insert_one :: "faults \<Rightarrow> doc_dict \<Rightarrow> doc_dict list \<Rightarrow> error option \<times> doc_dict list" where
  "mem_insert_one f doc db =
     (if doc_id doc \<in> set (rejected f) \<or> doc_id doc \<in> set (map doc_id db)
      then (Some ServiceError, db)
      else (None, db @ [doc]))"

fun mem_insert_unordered ::
  "faults \<Rightarrow> doc_dict list \<Rightarrow> error option \<times> doc_dict list \<Rightarrow> error option \<times> doc_dict list" where
  "mem_insert_unordered f [] acc = acc"
| "mem_insert_unordered f (doc # docs) (r, db) =
     (case mem_insert_one f doc db of
        (None, db') \<Rightarrow> mem_insert_unordered f docs (r, db')
      | (Some e, db') \<Rightarrow> mem_insert_unordered f docs (Some e, db'))"

definition scored :: "doc_dict \<Rightarrow> raw_result" where
  "scored doc = \<lparr>r_content = Some (content doc), r_metadata = Some (doc_metadata doc),
     r_score = Some (SNum 1)\<rparr>"

definition unscored :: "doc_dict \<Rightarrow> raw_result" where
  "unscored doc = \<lparr>r_content = Some (content doc), r_metadata = Some (doc_metadata doc),
     r_score = None\<rparr>"

definition mem_service :: "faults \<Rightarrow> doc_dict list service" where
  "mem_service f =
     \<lparr>embed_documents =
        (\<lambda>texts. if embed_down f then Inl ProviderError
                  else Inr (map (\<lambda>t. [real (length t)]) texts)),
      embed_query =
        (\<lambda>text. if embed_down f then Inl ProviderError else Inr [real (length text)]),
      insert_many =
        (\<lambda>docs db. if bulk_down f then (Some ServiceError, db)
                    else mem_insert_unordered f docs (None, db)),
      insert_one = mem_insert_one f,
      aggregate =
        (\<lambda>v k db. if vector_down f then Inl ServiceError
                   else Inr (map scored (take (nat k) db))),
      find_text =
        (\<lambda>q k db. if text_down f then Inl ServiceError
                   else Inr (map unscored (take (nat k) (filter (\<lambda>d. contains q (content d)) db)))),
      delete_many =
        (\<lambda>db. if delete_down f then (Some ServiceError, db) else (None, []))\<rparr>"

section \<open>Properties of the floats\<close>

lemma round_half_even_error: "\<bar>real_of_int (round_half_even y) - y\<bar> \<le> 1 / 2"
proof -
  have "real_of_int \<lfloor>y\<rfloor> \<le> y" "y < real_of_int \<lfloor>y\<rfloor> + 1" by linarith+
  then show ?thesis by (auto simp: round_half_even_def Let_def)
qed

lemma round_half_even_nonneg: "0 \<le> y \<Longrightarrow> 0 \<le> round_half_even y"
proof -
  assume "0 \<le> y"
  then have "0 \<le> \<lfloor>y\<rfloor>" by simp
  then show ?thesis by (auto simp: round_half_even_def Let_def)
qed

lemma exponent_down_ge: "n \<le> exponent_down n x"
proof (induction n x rule: exponent_down.induct)
  case (1 n x)
  show ?case
  proof (cases "1 \<le> x * 2 ^ n \<or> 1022 \<le> n")
    case True
    then show ?thesis by (subst exponent_down.simps) simp
  next
    case False
    with 1 have "Suc n \<le> exponent_down (Suc n) x" by simp
    with False show ?thesis by (subst exponent_down.simps) simp
  qed
qed

lemma exponent_up_le: "x < 2 ^ Suc k \<Longrightarrow> n \<le> k \<Longrightarrow> exponent_up n x \<le> k"
proof (induction n x rule: exponent_up.induct)
  case (1 n x)
  show ?case
  proof (cases "x < 2 ^ Suc n \<or> 1023 \<le> n")
    case True
    with 1 show ?thesis by (subst exponent_up.simps) simp
  next
    case False
    then have "\<not> x < 2 ^ Suc n" by simp
    with "1.prems" have "n \<noteq> k" by auto
    with "1.prems" have "Suc n \<le> k" by simp
    with 1 False have "exponent_up (Suc n) x \<le> k" by simp
    with False show ?thesis by (subst exponent_up.simps) simp
  qed
qed

lemma exponent_le: "x < 2 ^ Suc k \<Longrightarrow> exponent x \<le> int k"
  using exponent_up_le [of x k 0] exponent_down_ge [of 1 x]
  by (auto simp: exponent_def)

lemma double_round_error:
  assumes "0 < x" and "x < 2 ^ Suc k"
  shows "\<bar>double_round x - x\<bar> \<le> 2 powi (int k - 53)"
proof -
  let ?ulp = "2 powi (exponent x - 52) :: real"
  have pos: "0 < ?ulp" by simp
  have dr: "double_round x = real_of_int (round_half_even (x / ?ulp)) * ?ulp"
    using assms(1) by (simp add: double_round_def Let_def)
  have "\<bar>real_of_int (round_half_even (x / ?ulp)) - x / ?ulp\<bar> \<le> 1 / 2"
    by (rule round_half_even_error)
  then have "\<bar>real_of_int (round_half_even (x / ?ulp)) - x / ?ulp\<bar> * ?ulp \<le> 1 / 2 * ?ulp"
    using pos by (intro mult_right_mono) simp_all
  moreover have "\<bar>real_of_int (round_half_even (x / ?ulp)) - x / ?ulp\<bar> * ?ulp
      = \<bar>real_of_int (round_half_even (x / ?ulp)) * ?ulp - x\<bar>"
  proof -
    have "\<bar>real_of_int (round_half_even (x / ?ulp)) - x / ?ulp\<bar> * ?ulp
        = \<bar>(real_of_int (round_half_even (x / ?ulp)) - x / ?ulp) * ?ulp\<bar>"
      using pos by (simp add: abs_mult)
    also have "(real_of_int (round_half_even (x / ?ulp)) - x / ?ulp) * ?ulp
        = real_of_int (round_half_even (x / ?ulp)) * ?ulp - x"
      using pos by (simp add: algebra_simps)
    finally show ?thesis .
  qed
  ultimately have 1: "\<bar>double_round x - x\<bar> \<le> ?ulp / 2" by (simp add: dr)
  have "exponent x - 52 \<le> int k - 52" using exponent_le [OF assms(2)] by simp
  then have "?ulp \<le> 2 powi (int k - 52)" by (intro power_int_increasing) simp_all
  moreover have "(2::real) powi (int k - 52) / 2 = 2 powi (int k - 53)"
  proof -
    have "(2::real) powi ((int k - 53) + 1) = 2 powi (int k - 53) * 2"
      by (rule power_int_add_1) simp
    moreover have "(int k - 53) + 1 = int k - 52" by simp
    ultimately have "(2::real) powi (int k - 52) = 2 powi (int k - 53) * 2" by simp
    then show ?thesis by simp
  qed
  ultimately show ?thesis using 1 by linarith
qed

lemma double_round_nonneg: "0 \<le> x \<Longrightarrow> 0 \<le> double_round x"
proof -
  assume x: "0 \<le> x"
  show ?thesis
  proof (cases "x = 0")
    case True
    then show ?thesis by (simp add: double_round_def)
  next
    case False
    with x have "0 < x" by simp
    moreover have "0 \<le> round_half_even (x / 2 powi (exponent x - 52))"
      using x by (intro round_half_even_nonneg) simp
    ultimately show ?thesis by (simp add: double_round_def Let_def)
  qed
qed

lemma percent_error:
  assumes "0 \<le> x" and "x \<le> 1"
  shows "\<bar>double_round (double_round x * 100) - 100 * x\<bar> \<le> 1 / 2 ^ 45"
    and "0 \<le> double_round (double_round x * 100)"
proof -
  have e1: "\<bar>double_round x - x\<bar> \<le> 1 / 2 ^ 53"
  proof (cases "x = 0")
    case True
    then show ?thesis by (simp add: double_round_def)
  next
    case False
    with assms have "0 < x" "x < 2 ^ Suc 0" by simp_all
    from double_round_error [OF this] show ?thesis by (simp add: power_int_minus_divide)
  qed
  let ?y = "double_round x * 100"
  have y0: "0 \<le> ?y" using double_round_nonneg [OF assms(1)] by simp
  have "double_round x \<le> x + 1 / 2 ^ 53" using e1 by linarith
  with assms(2) have "double_round x \<le> 1 + 1 / 2 ^ 53" by linarith
  then have y128: "?y < 2 ^ Suc 6" by simp
  have e2: "\<bar>double_round ?y - ?y\<bar> \<le> 1 / 2 ^ 47"
  proof (cases "?y = 0")
    case True
    then show ?thesis by (simp add: double_round_def)
  next
    case False
    with y0 have "0 < ?y" by linarith
    from double_round_error [OF this y128] show ?thesis by (simp add: power_int_minus_divide)
  qed
  have "\<bar>?y - 100 * x\<bar> \<le> 100 / 2 ^ 53" using e1 by linarith
  with e2 have "\<bar>double_round ?y - 100 * x\<bar> \<le> 1 / 2 ^ 47 + 100 / 2 ^ 53" by linarith
  also have "\<dots> \<le> 1 / 2 ^ 45" by simp
  finally show "\<bar>double_round (double_round x * 100) - 100 * x\<bar> \<le> 1 / 2 ^ 45" .
  show "0 \<le> double_round (double_round x * 100)" using y0 by (rule double_round_nonneg)
qed

section \<open>Properties of the cache\<close>

lemma min_item_mem: "min_item b xs \<in> set (b # xs)"
  by (induction xs arbitrary: b) (auto split: if_splits)

lemma min_item_le_best: "timestamp (snd (min_item b xs)) \<le> timestamp (snd b)"
proof (induction xs arbitrary: b)
  case Nil
  show ?case by simp
next
  case (Cons x xs)
  show ?case
  proof (cases "timestamp (snd x) < timestamp (snd b)")
    case True
    have "timestamp (snd (min_item x xs)) \<le> timestamp (snd x)" by (rule Cons.IH)
    with True show ?thesis by simp
  next
    case False
    then show ?thesis using Cons.IH [of b] by simp
  qed
qed

lemma min_item_least: "y \<in> set (b # xs) \<Longrightarrow> timestamp (snd (min_item b xs)) \<le> timestamp (snd y)"
proof (induction xs arbitrary: b)
  case Nil
  then show ?case by simp
next
  case (Cons x xs)
  show ?case
  proof (cases "timestamp (snd x) < timestamp (snd b)")
    case True
    have le_x: "timestamp (snd (min_item x xs)) \<le> timestamp (snd x)"
      by (rule min_item_le_best)
    from Cons.prems consider "y = b" | "y \<in> set (x # xs)" by auto
    then show ?thesis
    proof cases
      case 1
      with True le_x show ?thesis by simp
    next
      case 2
      then show ?thesis using True Cons.IH [of x] by simp
    qed
  next
    case False
    from Cons.prems consider "y = x" | "y \<in> set (b # xs)" by auto
    then show ?thesis
    proof cases
      case 1
      have "timestamp (snd (min_item b xs)) \<le> timestamp (snd b)"
        by (rule min_item_le_best)
      with False 1 show ?thesis by simp
    next
      case 2
      then show ?thesis using False Cons.IH [of b] by simp
    qed
  qed
qed

lemma oldest_key_Inr:
  assumes "oldest_key xs = Inr k"
  shows "\<exists>e. (k, e) \<in> set xs \<and> (\<forall>y \<in> set xs. timestamp e \<le> timestamp (snd y))"
proof (cases xs)
  case Nil
  with assms show ?thesis by simp
next
  case (Cons x xs')
  with assms have k: "k = fst (min_item x xs')" by simp
  have "min_item x xs' \<in> set xs" using min_item_mem [of x xs'] Cons by simp
  then have "(k, snd (min_item x xs')) \<in> set xs" using k by simp
  moreover have "\<forall>y \<in> set xs. timestamp (snd (min_item x xs')) \<le> timestamp (snd y)"
    using min_item_least [of _ x xs'] Cons by simp
  ultimately show ?thesis by blast
qed

lemma oldest_key_nonempty: "xs \<noteq> [] \<Longrightarrow> \<exists>k. oldest_key xs = Inr k"
  by (cases xs) simp_all

lemma length_delete_less:
  "(k, e) \<in> set al \<Longrightarrow> length (AList.delete k al) < length al"
  by (induction al) (auto simp: less_Suc_eq_le AList.length_delete_le)

lemma length_update_le: "length (AList.update k v al) \<le> Suc (length al)"
  by (induction al) auto

lemma length_delete_distinct:
  "distinct (map fst al) \<Longrightarrow> map_of al k = Some e \<Longrightarrow> Suc (length (AList.delete k al)) = length al"
proof (induction al)
  case Nil
  then show ?case by simp
next
  case (Cons x al)
  show ?case
  proof (cases "fst x = k")
    case True
    with Cons.prems have "k \<notin> fst ` set al" by auto
    then have "AList.delete k al = al" by simp
    with True show ?thesis by (cases x) simp
  next
    case False
    with Cons.prems have "map_of al k = Some e" by (cases x) (auto split: if_splits)
    with Cons have "Suc (length (AList.delete k al)) = length al" by simp
    with False show ?thesis by (cases x) auto
  qed
qed

lemma put_max_size: "put digest c q v k t now = Inr c' \<Longrightarrow> max_size c' = max_size c"
  by (auto simp: put_def Let_def split: if_splits sum.splits)

lemma put_length:
  assumes "put digest c q v k t now = Inr c'"
    and "int (length (cache c)) \<le> max_size c"
  shows "int (length (cache c')) \<le> max_size c"
proof (cases "int (length (cache c)) \<ge> max_size c")
  case True
  with assms(1) obtain oldest where o: "oldest_key (cache c) = Inr oldest"
    and c': "cache c' = AList.update (generate_key digest q k)
        \<lparr>data = v, timestamp = now, ttl = ttl_or_default c t\<rparr> (AList.delete oldest (cache c))"
    by (auto simp: put_def Let_def split: sum.splits)
  from oldest_key_Inr [OF o] obtain e where "(oldest, e) \<in> set (cache c)" by blast
  then have "length (AList.delete oldest (cache c)) < length (cache c)"
    by (rule length_delete_less)
  moreover have "length (cache c') \<le> Suc (length (AList.delete oldest (cache c)))"
    unfolding c' by (rule length_update_le)
  ultimately have "length (cache c') \<le> length (cache c)" by simp
  with assms(2) show ?thesis by simp
next
  case False
  with assms(1) have "cache c' = AList.update (generate_key digest q k)
        \<lparr>data = v, timestamp = now, ttl = ttl_or_default c t\<rparr> (cache c)"
    by (auto simp: put_def Let_def)
  then have "length (cache c') \<le> Suc (length (cache c))"
    by (simp add: length_update_le)
  with False show ?thesis by simp
qed

lemma puts_invariant:
  "int (length (cache c)) \<le> max_size c \<Longrightarrow>
   int (length (cache (puts digest c ps))) \<le> max_size c \<and> max_size (puts digest c ps) = max_size c"
proof (induction ps arbitrary: c)
  case Nil
  then show ?case by simp
next
  case (Cons p ps)
  obtain q v k t now where p: "p = (q, v, k, t, now)" by (cases p) auto
  show ?case
  proof (cases "put digest c q v k t now")
    case (Inl e)
    with p Cons show ?thesis by simp
  next
    case (Inr c')
    have m: "max_size c' = max_size c" using Inr by (rule put_max_size)
    have "int (length (cache c')) \<le> max_size c'"
      using put_length [OF Inr Cons.prems] m by simp
    from Cons.IH [OF this] show ?thesis using p Inr m by simp
  qed
qed

lemma put_evicts_oldest:
  assumes "int (length (cache c)) \<ge> max_size c"
    and "put digest c q v k t now = Inr c'"
  shows "\<exists>oldest e. (oldest, e) \<in> set (cache c)
           \<and> (\<forall>y \<in> set (cache c). timestamp e \<le> timestamp (snd y))
           \<and> cache c' = AList.update (generate_key digest q k)
               \<lparr>data = v, timestamp = now, ttl = ttl_or_default c t\<rparr>
               (AList.delete oldest (cache c))"
proof -
  from assms obtain oldest where o: "oldest_key (cache c) = Inr oldest"
    and c': "cache c' = AList.update (generate_key digest q k)
        \<lparr>data = v, timestamp = now, ttl = ttl_or_default c t\<rparr> (AList.delete oldest (cache c))"
    by (auto simp: put_def Let_def split: sum.splits)
  from oldest_key_Inr [OF o] c' show ?thesis by blast
qed

lemma put_total:
  assumes "1 \<le> max_size c"
  shows "\<exists>c'. put digest c q v k t now = Inr c'"
proof (cases "int (length (cache c)) \<ge> max_size c")
  case True
  with assms have "cache c \<noteq> []" by auto
  then obtain oldest where "oldest_key (cache c) = Inr oldest"
    using oldest_key_nonempty by blast
  with True show ?thesis by (simp add: put_def Let_def)
next
  case False
  then show ?thesis by (simp add: put_def Let_def)
qed

lemma lower_char_idem: "lower_char (lower_char c) = lower_char c"
proof (cases "(65 \<le> (of_char c :: nat) \<and> (of_char c :: nat) \<le> 90)
    \<or> (192 \<le> (of_char c :: nat) \<and> (of_char c :: nat) \<le> 222 \<and> (of_char c :: nat) \<noteq> 215)")
  case True
  let ?n = "of_char c :: nat"
  from True have l: "lower_char c = char_of (?n + 32)"
    by (simp add: lower_char_def Let_def)
  from True have "?n + 32 < 256" by auto
  then have m: "(of_char (char_of (?n + 32) :: char) :: nat) = ?n + 32" by simp
  from True have "\<not> ((65 \<le> ?n + 32 \<and> ?n + 32 \<le> 90)
      \<or> (192 \<le> ?n + 32 \<and> ?n + 32 \<le> 222 \<and> ?n + 32 \<noteq> 215))"
    by auto
  then have "lower_char (char_of (?n + 32)) = char_of (?n + 32)"
    unfolding lower_char_def Let_def m by (rule if_not_P)
  with l show ?thesis by simp
next
  case False
  then have "lower_char c = c" unfolding lower_char_def Let_def by (rule if_not_P)
  then show ?thesis by simp
qed

lemma lower_idem: "lower (lower s) = lower s"
  by (simp add: lower_def lower_char_idem)

lemma lower_char_space: "isspace c \<Longrightarrow> lower_char c = c"
proof -
  assume "isspace c"
  then have "\<not> ((65 \<le> (of_char c :: nat) \<and> (of_char c :: nat) \<le> 90)
    \<or> (192 \<le> (of_char c :: nat) \<and> (of_char c :: nat) \<le> 222 \<and> (of_char c :: nat) \<noteq> 215))"
    unfolding isspace_def Let_def by linarith
  then show ?thesis unfolding lower_char_def Let_def by (rule if_not_P)
qed

lemma lower_spaces: "\<forall>c \<in> set ws. isspace c \<Longrightarrow> lower ws = ws"
  by (induction ws) (simp_all add: lower_def lower_char_space)

lemma lower_append: "lower (xs @ ys) = lower xs @ lower ys"
  by (simp add: lower_def)

lemma dropWhile_all: "\<forall>c \<in> set xs. P c \<Longrightarrow> dropWhile P xs = []"
  by (induction xs) simp_all

lemma strip_spaces:
  assumes l: "\<forall>c \<in> set ws. isspace c" and r: "\<forall>c \<in> set ws'. isspace c"
  shows "strip (ws @ s @ ws') = strip s"
proof -
  have left: "dropWhile isspace (ws @ s @ ws') = dropWhile isspace (s @ ws')"
    using l by simp
  show ?thesis
  proof (cases "\<forall>c \<in> set s. isspace c")
    case True
    with l r have "\<forall>c \<in> set (ws @ s @ ws'). isspace c" by auto
    then have "dropWhile isspace (ws @ s @ ws') = []" by (rule dropWhile_all)
    then have "strip (ws @ s @ ws') = []" by (simp only: strip_def) simp
    moreover from True have "dropWhile isspace s = []" by (rule dropWhile_all)
    then have "strip s = []" by (simp only: strip_def) simp
    ultimately show ?thesis by simp
  next
    case False
    then obtain x where x: "x \<in> set s" "\<not> isspace x" by blast
    then have "dropWhile isspace (s @ ws') = dropWhile isspace s @ ws'"
      by (simp add: dropWhile_append1)
    moreover have "dropWhile isspace (rev ws' @ rev (dropWhile isspace s))
        = dropWhile isspace (rev (dropWhile isspace s))"
      using r by (intro dropWhile_append2) simp
    ultimately show ?thesis using left by (simp add: strip_def)
  qed
qed

lemma isspace_blank: "isspace CHR '' ''"
  by code_simp

lemma norm_help: "strip (lower ''help'') = ''help''"
  by code_simp

lemma digit_chars:
  "char_of (48::nat) = CHR ''0''" "char_of (49::nat) = CHR ''1''" "char_of (50::nat) = CHR ''2''"
  "char_of (51::nat) = CHR ''3''" "char_of (52::nat) = CHR ''4''" "char_of (53::nat) = CHR ''5''"
  "char_of (54::nat) = CHR ''6''" "char_of (55::nat) = CHR ''7''" "char_of (56::nat) = CHR ''8''"
  "char_of (57::nat) = CHR ''9''"
  by code_simp+

lemma norm_abc:
  "strip (lower ''a'') = ''a''" "strip (lower ''b'') = ''b''" "strip (lower ''c'') = ''c''"
  by code_simp+

lemma norm_hello:
  "strip (lower ''Hello '') = ''hello''" "strip (lower ''hello'') = ''hello''"
  by code_simp+

lemma distinct_put:
  "put digest c q v k t now = Inr c' \<Longrightarrow> distinct (map fst (cache c)) \<Longrightarrow> distinct (map fst (cache c'))"
  by (auto simp: put_def Let_def AList.distinct_update AList.distinct_delete split: if_splits sum.splits)

lemma distinct_get:
  "distinct (map fst (cache c)) \<Longrightarrow> distinct (map fst (cache (snd (get digest c q k now))))"
  by (auto simp: get_def Let_def AList.distinct_delete split: option.splits)

lemma distinct_puts:
  "distinct (map fst (cache c)) \<Longrightarrow> distinct (map fst (cache (puts digest c ps)))"
proof (induction ps arbitrary: c)
  case Nil
  then show ?case by simp
next
  case (Cons p ps)
  obtain q v k t now where p: "p = (q, v, k, t, now)" by (cases p) auto
  show ?case
  proof (cases "put digest c q v k t now")
    case (Inl e)
    with p Cons show ?thesis by simp
  next
    case (Inr c')
    from distinct_put [OF Inr Cons.prems] have "distinct (map fst (cache c'))" .
    from Cons.IH [OF this] show ?thesis using p Inr by simp
  qed
qed

lemma get_counters:
  "hits c \<le> hits (snd (get digest c q k now)) \<and> misses c \<le> misses (snd (get digest c q k now))"
  by (simp add: get_def Let_def split: option.splits)

lemma put_counters:
  "put digest c q v k t now = Inr c' \<Longrightarrow> hits c' = hits c \<and> misses c' = misses c"
  by (auto simp: put_def Let_def split: if_splits sum.splits)

lemma put_fresh:
  fixes v :: 'a
  assumes "1 \<le> N"
  shows "put digest (init N d) q v k t t0
     = Inr \<lparr>cache = [(generate_key digest q k,
                \<lparr>data = v, timestamp = t0, ttl = ttl_or_default (init N d :: 'a query_cache) t\<rparr>)],
            max_size = N, default_ttl = d, hits = 0, misses = 0\<rparr>"
  using assms by (simp add: put_def init_def Let_def ttl_or_default_def)

section \<open>Properties of the vector store and of the retriever\<close>

lemma fallback_search_fst:
  "fst (fallback_search svc query k s) =
     (case find_text svc query k (collection s) of
        Inl e \<Rightarrow> []
      | Inr results \<Rightarrow> (case convert to_document results of Inl e \<Rightarrow> [] | Inr docs \<Rightarrow> docs))"
  by (simp add: fallback_search_def Let_def split: sum.splits)

lemma fallback_search_calls:
  "calls (snd (fallback_search svc query k s)) = calls s @ [FindText query k]
   \<and> collection (snd (fallback_search svc query k s)) = collection s"
  by (simp add: fallback_search_def Let_def called_def split: sum.splits)

lemma similarity_search_calls:
  assumes "embed_query svc query = Inr v"
  shows "\<exists>rest. calls (snd (similarity_search svc query k s))
           = calls s @ EmbedQuery query # Aggregate v k # rest"
proof (cases "\<exists>results docs. aggregate svc v k (collection s) = Inr results
    \<and> convert to_scored_document results = Inr docs")
  case True
  with assms have "calls (snd (similarity_search svc query k s))
      = calls s @ EmbedQuery query # Aggregate v k # []"
    by (auto simp: similarity_search_def Let_def called_def)
  then show ?thesis by blast
next
  case False
  with assms have "calls (snd (similarity_search svc query k s))
      = calls s @ EmbedQuery query # Aggregate v k # [FindText query k]"
    by (auto simp: similarity_search_def Let_def called_def split_beta fallback_search_calls
        split: sum.splits)
  then show ?thesis by blast
qed

lemma similarity_search_collection:
  "collection (snd (similarity_search svc query k s)) = collection s"
  by (simp add: similarity_search_def Let_def called_def split_beta fallback_search_calls
      split: sum.splits)


lemma add_documents_returns_prepared_ids:
  assumes "documents \<noteq> []"
    and "embed_documents svc (map page_content documents) = Inr embeddings"
  shows "fst (add_documents svc hash documents ids s)
     = Inr (map doc_id (prepare hash ids 0 (zip documents embeddings)))"
  using assms
  by (simp add: add_documents_def Let_def split: prod.splits option.splits)

section \<open>The claims\<close>

text \<open>
  C1. The claim: when the bulk insert fails and some of the single inserts fail too,
  \<open>add_documents\<close> returns only the ids of the records that were stored; with 2 of 5
  single inserts failing it returns 3 ids. The code returns the list \<open>inserted_ids\<close>
  that it filled before any insert: with five documents, a bulk insert that fails and
  single inserts that fail for \<open>b\<close> and \<open>d\<close>, it returns all five ids while the
  collection holds \<open>a\<close>, \<open>c\<close> and \<open>e\<close>.
\<close>

theorem add_documents_returns_unpersisted_ids:
  "fst (add_documents (mem_service (no_faults\<lparr>bulk_down := True, rejected := [''b'', ''d'']\<rparr>)) (\<lambda>t. 0)
     [\<lparr>page_content = ''c1'', metadata = Map.empty\<rparr>,
      \<lparr>page_content = ''c2'', metadata = Map.empty\<rparr>,
      \<lparr>page_content = ''c3'', metadata = Map.empty\<rparr>,
      \<lparr>page_content = ''c4'', metadata = Map.empty\<rparr>,
      \<lparr>page_content = ''c5'', metadata = Map.empty\<rparr>]
     (Some [''a'', ''b'', ''c'', ''d'', ''e''])
     \<lparr>collection = [], calls = []\<rparr>) = Inr [''a'', ''b'', ''c'', ''d'', ''e'']
   \<and> map doc_id (collection (snd (add_documents
     (mem_service (no_faults\<lparr>bulk_down := True, rejected := [''b'', ''d'']\<rparr>)) (\<lambda>t. 0)
     [\<lparr>page_content = ''c1'', metadata = Map.empty\<rparr>,
      \<lparr>page_content = ''c2'', metadata = Map.empty\<rparr>,
      \<lparr>page_content = ''c3'', metadata = Map.empty\<rparr>,
      \<lparr>page_content = ''c4'', metadata = Map.empty\<rparr>,
      \<lparr>page_content = ''c5'', metadata = Map.empty\<rparr>]
     (Some [''a'', ''b'', ''c'', ''d'', ''e''])
     \<lparr>collection = [], calls = []\<rparr>))) = [''a'', ''c'', ''e'']"
  by (simp add: add_documents_def mem_service_def no_faults_def choose_id_def Let_def
      called_def mem_insert_one_def)

text \<open>
  C2. The claim: the retriever consults a result cache first, and a second retrieval
  with the same arguments is served from the cache without reaching the store. The
  system has no cache: two retrievals of the same query send two vector searches to
  the collection.
\<close>

theorem second_retrieve_reaches_store:
  "calls (vector_store (snd (get_relevant_documents (mem_service no_faults)
      (snd (get_relevant_documents (mem_service no_faults)
         \<lparr>config = \<lparr>top_k_results = 1\<rparr>,
          vector_store = \<lparr>collection =
             [\<lparr>doc_id = ''d1'', content = ''The sky is blue.'',
               doc_metadata = [''source'' \<mapsto> SStr ''t1''], embedding = [16]\<rparr>],
             calls = []\<rparr>\<rparr> ''sky color''))
      ''sky color'')))
   = [EmbedQuery ''sky color'', Aggregate [9] 1, EmbedQuery ''sky color'', Aggregate [9] 1]"
  by (simp add: get_relevant_documents_def similarity_search_def mem_service_def no_faults_def
      Let_def called_def scored_def to_scored_document_def)

text \<open>
  C2, as amended. A retrieval is \<open>similarity_search\<close> with \<open>config.top_k_results\<close> on
  the system's vector store, with no cache before or after it: it changes neither the
  configuration nor the collection, and whenever the query can be embedded, each of
  two retrievals of the same query embeds it and sends a vector search to the
  collection.
\<close>

theorem retrieve_reaches_store:
  "fst (get_relevant_documents svc sys query)
     = fst (similarity_search svc query (top_k_results (config sys)) (vector_store sys))
   \<and> config (snd (get_relevant_documents svc sys query)) = config sys
   \<and> collection (vector_store (snd (get_relevant_documents svc sys query)))
       = collection (vector_store sys)
   \<and> (\<forall>v. embed_query svc query = Inr v \<longrightarrow>
        (\<exists>rest1 rest2.
           calls (vector_store (snd (get_relevant_documents svc
                    (snd (get_relevant_documents svc sys query)) query)))
           = calls (vector_store sys)
             @ EmbedQuery query # Aggregate v (top_k_results (config sys)) # rest1
             @ EmbedQuery query # Aggregate v (top_k_results (config sys)) # rest2))"
proof -
  let ?k = "top_k_results (config sys)"
  let ?sys1 = "snd (get_relevant_documents svc sys query)"
  have res: "fst (get_relevant_documents svc sys query)
     = fst (similarity_search svc query ?k (vector_store sys))"
    by (simp add: get_relevant_documents_def split_beta)
  have cfg: "config ?sys1 = config sys"
    by (simp add: get_relevant_documents_def split_beta)
  have col: "collection (vector_store ?sys1) = collection (vector_store sys)"
    by (simp add: get_relevant_documents_def split_beta similarity_search_collection)
  have vs: "vector_store (snd (get_relevant_documents svc sys' query))
      = snd (similarity_search svc query (top_k_results (config sys')) (vector_store sys'))" for sys'
    by (simp add: get_relevant_documents_def split_beta)
  have twice: "\<exists>rest1 rest2.
           calls (vector_store (snd (get_relevant_documents svc ?sys1 query)))
           = calls (vector_store sys) @ EmbedQuery query # Aggregate v ?k # rest1
             @ EmbedQuery query # Aggregate v ?k # rest2"
    if v: "embed_query svc query = Inr v" for v
  proof -
    from similarity_search_calls [OF v, of ?k "vector_store sys"] obtain rest1 where
      1: "calls (vector_store ?sys1) = calls (vector_store sys) @ EmbedQuery query # Aggregate v ?k # rest1"
      unfolding vs by blast
    from similarity_search_calls [OF v, of ?k "vector_store ?sys1"] obtain rest2 where
      2: "calls (vector_store (snd (get_relevant_documents svc ?sys1 query)))
          = calls (vector_store ?sys1) @ EmbedQuery query # Aggregate v ?k # rest2"
      unfolding vs cfg by blast
    from 1 2 show ?thesis
      by (intro exI [of _ rest1] exI [of _ rest2]) simp
  qed
  from res cfg col twice show ?thesis by blast
qed

theorem retrieve_reaches_store_witness:
  "\<exists>rest1 rest2.
     calls (vector_store (snd (get_relevant_documents (mem_service no_faults)
      (snd (get_relevant_documents (mem_service no_faults)
         \<lparr>config = \<lparr>top_k_results = 1\<rparr>,
          vector_store = \<lparr>collection = [], calls = []\<rparr>\<rparr> ''sky color''))
      ''sky color'')))
     = [] @ EmbedQuery ''sky color'' # Aggregate [9] 1 # rest1
         @ EmbedQuery ''sky color'' # Aggregate [9] 1 # rest2"
proof -
  have "embed_query (mem_service no_faults) ''sky color'' = Inr [9]"
    by (simp add: mem_service_def no_faults_def)
  with retrieve_reaches_store [of "mem_service no_faults"
      "\<lparr>config = \<lparr>top_k_results = 1\<rparr>, vector_store = \<lparr>collection = [], calls = []\<rparr>\<rparr>" "''sky color''"]
  show ?thesis by simp
qed




text \<open>
  C4. The claim: \<open>similarity_search\<close> never raises; on any failure, one of the
  embedding provider included, it returns the result of the fallback search. The query
  is embedded before the \<open>try\<close>: when the provider fails, the exception leaves
  \<open>similarity_search\<close>, although the fallback search would have found the document.
\<close>

theorem embedding_failure_is_raised:
  "fst (similarity_search (mem_service (no_faults\<lparr>embed_down := True\<rparr>)) ''sky'' 5
     \<lparr>collection =
          [\<lparr>doc_id = ''d1'', content = ''The sky is blue.'',
            doc_metadata = Map.empty, embedding = [16]\<rparr>],
      calls = []\<rparr>) = Inl ProviderError
   \<and> fst (fallback_search (mem_service (no_faults\<lparr>embed_down := True\<rparr>)) ''sky'' 5
     \<lparr>collection =
          [\<lparr>doc_id = ''d1'', content = ''The sky is blue.'',
            doc_metadata = Map.empty, embedding = [16]\<rparr>],
      calls = []\<rparr>) = [\<lparr>page_content = ''The sky is blue.'', metadata = Map.empty\<rparr>]"
  by (simp add: similarity_search_def fallback_search_def mem_service_def no_faults_def
      Let_def called_def unscored_def to_document_def)

text \<open>
  C4, as amended. \<open>similarity_search\<close> raises exactly the exception of \<open>embed_query\<close>
  when the query cannot be embedded. Once the query is embedded it always returns a
  list: the converted results of the vector search when the search and the conversion
  succeed, and otherwise (the search raised, or a result has no content) the result of
  \<open>fallback_search\<close>, which is empty when the text search raises or one of its
  results has no content.
\<close>

theorem similarity_search_fallback:
  "(\<forall>e. embed_query svc query = Inl e \<longrightarrow> fst (similarity_search svc query k s) = Inl e)
   \<and> (\<forall>v. embed_query svc query = Inr v \<longrightarrow>
        (\<exists>docs. fst (similarity_search svc query k s) = Inr docs)
        \<and> (\<forall>results docs. aggregate svc v k (collection s) = Inr results
              \<and> convert to_scored_document results = Inr docs
              \<longrightarrow> fst (similarity_search svc query k s) = Inr docs)
        \<and> ((\<exists>e. aggregate svc v k (collection s) = Inl e)
             \<or> (\<exists>results e. aggregate svc v k (collection s) = Inr results
                   \<and> convert to_scored_document results = Inl e)
              \<longrightarrow> fst (similarity_search svc query k s) = Inr (fst (fallback_search svc query k s))))
   \<and> (\<forall>e. find_text svc query k (collection s) = Inl e \<longrightarrow> fst (fallback_search svc query k s) = [])
   \<and> (\<forall>results e. find_text svc query k (collection s) = Inr results
         \<and> convert to_document results = Inl e
         \<longrightarrow> fst (fallback_search svc query k s) = [])"
proof -
  have raise: "fst (similarity_search svc query k s) = Inl e" if "embed_query svc query = Inl e" for e
    using that by (simp add: similarity_search_def Let_def)
  have ok: "fst (similarity_search svc query k s) = Inr docs"
    if "embed_query svc query = Inr v" "aggregate svc v k (collection s) = Inr results"
      "convert to_scored_document results = Inr docs" for v results docs
    using that by (simp add: similarity_search_def Let_def)
  have fb1: "fst (similarity_search svc query k s) = Inr (fst (fallback_search svc query k s))"
    if "embed_query svc query = Inr v" "aggregate svc v k (collection s) = Inl e" for v e
    using that
    by (simp add: similarity_search_def Let_def split_beta fallback_search_fst called_def)
  have fb2: "fst (similarity_search svc query k s) = Inr (fst (fallback_search svc query k s))"
    if "embed_query svc query = Inr v" "aggregate svc v k (collection s) = Inr results"
      "convert to_scored_document results = Inl e" for v results e
    using that
    by (simp add: similarity_search_def Let_def split_beta fallback_search_fst called_def)
  have returns: "\<exists>docs. fst (similarity_search svc query k s) = Inr docs"
    if v: "embed_query svc query = Inr v" for v
  proof (cases "aggregate svc v k (collection s)")
    case (Inl e)
    from fb1 [OF v Inl] show ?thesis by blast
  next
    case (Inr results)
    show ?thesis
    proof (cases "convert to_scored_document results")
      case (Inl e)
      from fb2 [OF v Inr Inl] show ?thesis by blast
    next
      case Inr2: (Inr docs)
      from ok [OF v Inr Inr2] show ?thesis by blast
    qed
  qed
  have empty: "fst (fallback_search svc query k s) = []"
    if "find_text svc query k (collection s) = Inl e" for e
    using that by (simp add: fallback_search_fst)
  have empty2: "fst (fallback_search svc query k s) = []"
    if "find_text svc query k (collection s) = Inr results" "convert to_document results = Inl e"
    for results e
    using that by (simp add: fallback_search_fst)
  from raise ok fb1 fb2 returns empty empty2 show ?thesis by blast
qed

theorem similarity_search_fallback_witness:
  "fst (similarity_search (mem_service (no_faults\<lparr>vector_down := True\<rparr>)) ''sky'' 5
     \<lparr>collection =
          [\<lparr>doc_id = ''d1'', content = ''The sky is blue.'',
            doc_metadata = Map.empty, embedding = [16]\<rparr>],
      calls = []\<rparr>)
     = Inr [\<lparr>page_content = ''The sky is blue.'', metadata = Map.empty\<rparr>]
   \<and> fst (similarity_search (mem_service (no_faults\<lparr>embed_down := True\<rparr>)) ''sky'' 5
     \<lparr>collection =
          [\<lparr>doc_id = ''d1'', content = ''The sky is blue.'',
            doc_metadata = Map.empty, embedding = [16]\<rparr>],
      calls = []\<rparr>)
     = Inl ProviderError
   \<and> fst (similarity_search (mem_service (no_faults\<lparr>vector_down := True, text_down := True\<rparr>))
       ''sky'' 5
     \<lparr>collection =
          [\<lparr>doc_id = ''d1'', content = ''The sky is blue.'',
            doc_metadata = Map.empty, embedding = [16]\<rparr>],
      calls = []\<rparr>)
     = Inr []"
proof -
  let ?s = "\<lparr>collection =
          [\<lparr>doc_id = ''d1'', content = ''The sky is blue.'',
            doc_metadata = Map.empty, embedding = [16]\<rparr>],
      calls = []\<rparr>"
  let ?v = "mem_service (no_faults\<lparr>vector_down := True\<rparr>)"
  let ?e = "mem_service (no_faults\<lparr>embed_down := True\<rparr>)"
  let ?t = "mem_service (no_faults\<lparr>vector_down := True, text_down := True\<rparr>)"
  have v1: "embed_query ?v ''sky'' = Inr [3]"
    by (simp add: mem_service_def no_faults_def)
  have v2: "aggregate ?v [3] 5 (collection ?s) = Inl ServiceError"
    by (simp add: mem_service_def no_faults_def)
  have v3: "fst (fallback_search ?v ''sky'' 5 ?s)
      = [\<lparr>page_content = ''The sky is blue.'', metadata = Map.empty\<rparr>]"
    by (simp add: fallback_search_def mem_service_def no_faults_def
        Let_def called_def unscored_def to_document_def)
  from similarity_search_fallback [of ?v "''sky''" 5 ?s] v1 v2
  have "fst (similarity_search ?v ''sky'' 5 ?s) = Inr (fst (fallback_search ?v ''sky'' 5 ?s))"
    by blast
  with v3 have a: "fst (similarity_search ?v ''sky'' 5 ?s)
      = Inr [\<lparr>page_content = ''The sky is blue.'', metadata = Map.empty\<rparr>]"
    by simp
  have e1: "embed_query ?e ''sky'' = Inl ProviderError"
    by (simp add: mem_service_def no_faults_def)
  from similarity_search_fallback [of ?e "''sky''" 5 ?s] e1
  have b: "fst (similarity_search ?e ''sky'' 5 ?s) = Inl ProviderError"
    by blast
  have t1: "embed_query ?t ''sky'' = Inr [3]"
    by (simp add: mem_service_def no_faults_def)
  have t2: "aggregate ?t [3] 5 (collection ?s) = Inl ServiceError"
    by (simp add: mem_service_def no_faults_def)
  have t3: "find_text ?t ''sky'' 5 (collection ?s) = Inl ServiceError"
    by (simp add: mem_service_def no_faults_def)
  from similarity_search_fallback [of ?t "''sky''" 5 ?s] t1 t2 t3
  have "fst (similarity_search ?t ''sky'' 5 ?s) = Inr (fst (fallback_search ?t ''sky'' 5 ?s))"
    and "fst (fallback_search ?t ''sky'' 5 ?s) = []"
    by blast+
  then have c: "fst (similarity_search ?t ''sky'' 5 ?s) = Inr []" by simp
  from a b c show ?thesis by blast
qed

text \<open>
  C5. On a cache made with \<open>max_size = N\<close> (\<open>N\<close> not negative), after each call of
  any sequence of \<open>put\<close> calls the cache holds at most \<open>N\<close> entries. And whenever a
  \<open>put\<close> on a full cache goes through, it has removed one key of the cache whose
  entry has the smallest timestamp of all current entries, before storing the new
  entry; unless the new entry took that very key, the key is absent afterwards. A
  \<open>put\<close> on a cache with \<open>max_size\<close> at least 1 always goes through.
\<close>

theorem put_capacity_invariant:
  assumes "0 \<le> N"
  shows "int (length (cache (puts digest (init N d) (take n ps)))) \<le> N
       \<and> (\<forall>c'. int (length (cache c)) \<ge> max_size c \<and> put digest c q v k t now = Inr c' \<longrightarrow>
            (\<exists>oldest e. (oldest, e) \<in> set (cache c)
               \<and> (\<forall>y \<in> set (cache c). timestamp e \<le> timestamp (snd y))
               \<and> cache c' = AList.update (generate_key digest q k)
                    \<lparr>data = v, timestamp = now, ttl = ttl_or_default c t\<rparr>
                    (AList.delete oldest (cache c))
               \<and> (oldest \<noteq> generate_key digest q k \<longrightarrow> map_of (cache c') oldest = None)))
       \<and> (1 \<le> max_size c \<longrightarrow> (\<exists>c'. put digest c q v k t now = Inr c'))"
proof -
  have "int (length (cache (init N d :: 'a query_cache))) \<le> max_size (init N d :: 'a query_cache)"
    using assms by (simp add: init_def)
  from puts_invariant [OF this, of digest "take n ps"]
  have size: "int (length (cache (puts digest (init N d) (take n ps)))) \<le> N"
    by (simp add: init_def)
  have evict: "\<exists>oldest e. (oldest, e) \<in> set (cache c)
               \<and> (\<forall>y \<in> set (cache c). timestamp e \<le> timestamp (snd y))
               \<and> cache c' = AList.update (generate_key digest q k)
                    \<lparr>data = v, timestamp = now, ttl = ttl_or_default c t\<rparr>
                    (AList.delete oldest (cache c))
               \<and> (oldest \<noteq> generate_key digest q k \<longrightarrow> map_of (cache c') oldest = None)"
    if full: "int (length (cache c)) \<ge> max_size c" and p: "put digest c q v k t now = Inr c'" for c'
  proof -
    from put_evicts_oldest [OF full p] obtain oldest e where
      1: "(oldest, e) \<in> set (cache c)"
      and 2: "\<forall>y \<in> set (cache c). timestamp e \<le> timestamp (snd y)"
      and 3: "cache c' = AList.update (generate_key digest q k)
                    \<lparr>data = v, timestamp = now, ttl = ttl_or_default c t\<rparr>
                    (AList.delete oldest (cache c))"
      by blast
    have "map_of (cache c') oldest = None" if "oldest \<noteq> generate_key digest q k"
      using that unfolding 3 by (simp add: AList.update_conv' AList.delete_conv')
    with 1 2 3 show ?thesis by blast
  qed
  have total: "\<exists>c'. put digest c q v k t now = Inr c'" if "1 \<le> max_size c"
    using that by (rule put_total)
  from size evict total show ?thesis by blast
qed

theorem put_capacity_invariant_witness:
  "int (length (cache (puts (\<lambda>q k. q) (init 2 3600)
      (take 3 [(''a'', 1::nat, 5, None, 1), (''b'', 2, 5, None, 2), (''c'', 3, 5, None, 3)])))) \<le> 2
   \<and> map fst (cache (puts (\<lambda>q k. q) (init 2 3600)
      (take 3 [(''a'', 1::nat, 5, None, 1), (''b'', 2, 5, None, 2), (''c'', 3, 5, None, 3)]))) = [''b'', ''c'']
   \<and> (\<exists>oldest e.
        (oldest, e) \<in> set [(''a'', \<lparr>data = 1::nat, timestamp = 1, ttl = 3600\<rparr>),
                             (''b'', \<lparr>data = 2, timestamp = 2, ttl = 3600\<rparr>)]
        \<and> (\<forall>y \<in> set [(''a'', \<lparr>data = 1::nat, timestamp = 1, ttl = 3600\<rparr>),
                             (''b'', \<lparr>data = 2, timestamp = 2, ttl = 3600\<rparr>)].
              timestamp e \<le> timestamp (snd y))
        \<and> [(''b'', \<lparr>data = 2::nat, timestamp = 2, ttl = 3600\<rparr>),
            (''c'', \<lparr>data = 3, timestamp = 3, ttl = 3600\<rparr>)]
           = AList.update ''c'' \<lparr>data = 3, timestamp = 3, ttl = 3600\<rparr>
               (AList.delete oldest [(''a'', \<lparr>data = 1::nat, timestamp = 1, ttl = 3600\<rparr>),
                                     (''b'', \<lparr>data = 2, timestamp = 2, ttl = 3600\<rparr>)]))"
proof -
  let ?c = "\<lparr>cache = [(''a'', \<lparr>data = 1::nat, timestamp = 1, ttl = 3600\<rparr>),
                      (''b'', \<lparr>data = 2, timestamp = 2, ttl = 3600\<rparr>)],
            max_size = 2, default_ttl = 3600, hits = 0, misses = 0\<rparr>"
  let ?c' = "\<lparr>cache = [(''b'', \<lparr>data = 2::nat, timestamp = 2, ttl = 3600\<rparr>),
                       (''c'', \<lparr>data = 3, timestamp = 3, ttl = 3600\<rparr>)],
             max_size = 2, default_ttl = 3600, hits = 0, misses = 0\<rparr>"
  have N: "(0::int) \<le> 2" by simp
  have full: "int (length (cache ?c)) \<ge> max_size ?c" by simp
  have p: "put (\<lambda>q k. q) ?c ''c'' 3 5 None 3 = Inr ?c'"
    by (simp add: put_def generate_key_def norm_abc ttl_or_default_def)
  note inst = put_capacity_invariant [OF N, of "\<lambda>q k. q" 3600 3
      "[(''a'', 1::nat, 5, None, 1), (''b'', 2, 5, None, 2), (''c'', 3, 5, None, 3)]"
      ?c "''c''" 3 5 None 3]
  from inst have size: "int (length (cache (puts (\<lambda>q k. q) (init 2 3600)
      (take 3 [(''a'', 1::nat, 5, None, 1), (''b'', 2, 5, None, 2), (''c'', 3, 5, None, 3)])))) \<le> 2"
    by blast
  have keys: "map fst (cache (puts (\<lambda>q k. q) (init 2 3600)
      (take 3 [(''a'', 1::nat, 5, None, 1), (''b'', 2, 5, None, 2), (''c'', 3, 5, None, 3)]))) = [''b'', ''c'']"
    by (simp add: put_def init_def generate_key_def norm_abc ttl_or_default_def)
  from inst full p have "\<exists>oldest e. (oldest, e) \<in> set (cache ?c)
      \<and> (\<forall>y \<in> set (cache ?c). timestamp e \<le> timestamp (snd y))
      \<and> cache ?c' = AList.update (generate_key (\<lambda>q k. q) ''c'' 5)
           \<lparr>data = 3, timestamp = 3, ttl = ttl_or_default ?c None\<rparr>
           (AList.delete oldest (cache ?c))
      \<and> (oldest \<noteq> generate_key (\<lambda>q k. q) ''c'' 5 \<longrightarrow> map_of (cache ?c') oldest = None)"
    by blast
  then obtain oldest e where "(oldest, e) \<in> set (cache ?c)"
      "\<forall>y \<in> set (cache ?c). timestamp e \<le> timestamp (snd y)"
      "cache ?c' = AList.update (generate_key (\<lambda>q k. q) ''c'' 5)
           \<lparr>data = 3, timestamp = 3, ttl = ttl_or_default ?c None\<rparr>
           (AList.delete oldest (cache ?c))"
    by blast
  then have "\<exists>oldest e.
        (oldest, e) \<in> set [(''a'', \<lparr>data = 1::nat, timestamp = 1, ttl = 3600\<rparr>),
                             (''b'', \<lparr>data = 2, timestamp = 2, ttl = 3600\<rparr>)]
        \<and> (\<forall>y \<in> set [(''a'', \<lparr>data = 1::nat, timestamp = 1, ttl = 3600\<rparr>),
                             (''b'', \<lparr>data = 2, timestamp = 2, ttl = 3600\<rparr>)].
              timestamp e \<le> timestamp (snd y))
        \<and> [(''b'', \<lparr>data = 2::nat, timestamp = 2, ttl = 3600\<rparr>),
            (''c'', \<lparr>data = 3, timestamp = 3, ttl = 3600\<rparr>)]
           = AList.update ''c'' \<lparr>data = 3, timestamp = 3, ttl = 3600\<rparr>
               (AList.delete oldest [(''a'', \<lparr>data = 1::nat, timestamp = 1, ttl = 3600\<rparr>),
                                     (''b'', \<lparr>data = 2, timestamp = 2, ttl = 3600\<rparr>)])"
    by (intro exI [of _ oldest] exI [of _ e])
       (simp add: generate_key_def norm_abc ttl_or_default_def)
  with size keys show ?thesis by blast
qed

text \<open>
  C6. When the entry stored under the key of \<open>(query, top_k)\<close> has
  \<open>now - timestamp > ttl\<close>, \<open>get\<close> returns \<open>None\<close>, whatever was read before, and
  removes the entry: the key is absent afterwards and \<open>cache_size\<close> of \<open>get_stats\<close> is
  one less than before.
\<close>

theorem get_expired_removes_entry:
  assumes "distinct (map fst (cache c))"
    and "map_of (cache c) (generate_key digest query top_k) = Some entry"
    and "now - timestamp entry > ttl entry"
  shows "fst (get digest c query top_k now) = None
       \<and> map_of (cache (snd (get digest c query top_k now))) (generate_key digest query top_k) = None
       \<and> Suc (cache_size (get_stats (snd (get digest c query top_k now))))
           = cache_size (get_stats c)"
proof -
  let ?key = "generate_key digest query top_k"
  have g: "get digest c query top_k now
      = (None, c\<lparr>cache := AList.delete ?key (cache c), misses := misses c + 1\<rparr>)"
    using assms(2,3) by (simp add: get_def is_expired_def)
  have "Suc (length (AList.delete ?key (cache c))) = length (cache c)"
    using assms(1,2) by (rule length_delete_distinct)
  with g show ?thesis by (simp add: get_stats_def AList.delete_conv')
qed

theorem get_expired_removes_entry_witness:
  "fst (get (\<lambda>q k. q) \<lparr>cache = [(''a'', \<lparr>data = (7::nat), timestamp = 10, ttl = 5\<rparr>)],
          max_size = 2, default_ttl = 5, hits = 0, misses = 0\<rparr> ''a'' 5 16) = None
   \<and> cache_size (get_stats (snd (get (\<lambda>q k. q) \<lparr>cache = [(''a'', \<lparr>data = (7::nat), timestamp = 10, ttl = 5\<rparr>)],
          max_size = 2, default_ttl = 5, hits = 0, misses = 0\<rparr> ''a'' 5 16))) = 0"
  using get_expired_removes_entry [of "\<lparr>cache = [(''a'', \<lparr>data = (7::nat), timestamp = 10, ttl = 5\<rparr>)],
          max_size = 2, default_ttl = 5, hits = 0, misses = 0\<rparr>" "\<lambda>q k. q" "''a''" 5
          "\<lparr>data = (7::nat), timestamp = 10, ttl = 5\<rparr>" 16]
  by (simp add: generate_key_def norm_abc get_stats_def)

text \<open>
  C7. The claim: the hit rate of \<open>get_stats\<close> equals \<open>hits / (hits + misses)\<close>, or 0
  without requests. \<open>get_stats\<close> returns a string, the print of that ratio times 100:
  with one hit and one miss it is \<open>50.00%\<close>, from the number 50 and not one half, and
  with one hit and two misses it is \<open>33.33%\<close>.
\<close>

theorem hit_rate_is_not_the_ratio:
  "hit_rate (get_stats ((init 1000 3600 :: nat query_cache)\<lparr>hits := 1, misses := 1\<rparr>)) = ''50.00%''
   \<and> hit_rate_value ((init 1000 3600 :: nat query_cache)\<lparr>hits := 1, misses := 1\<rparr>) = 50
   \<and> hit_rate_value ((init 1000 3600 :: nat query_cache)\<lparr>hits := 1, misses := 1\<rparr>) \<noteq> 1 / (1 + 1)
   \<and> hit_rate (get_stats ((init 1000 3600 :: nat query_cache)\<lparr>hits := 1, misses := 2\<rparr>)) = ''33.33%''"
proof -
  have v: "hit_rate_value ((init 1000 3600 :: nat query_cache)\<lparr>hits := 1, misses := 1\<rparr>) = 50"
    by (simp add: hit_rate_value_def init_def double_round_def exponent_def
        exponent_down.simps exponent_up.simps round_half_even_def Let_def)
  have a: "hit_rate (get_stats ((init 1000 3600 :: nat query_cache)\<lparr>hits := 1, misses := 1\<rparr>)) = ''50.00%''"
    by (simp add: get_stats_def v format_2f_def round_half_even_def str_nat.simps digit_chars)
  have n: "round_half_even
      (hit_rate_value ((init 1000 3600 :: nat query_cache)\<lparr>hits := 1, misses := 2\<rparr>) * 100) = 3333"
    by (simp add: hit_rate_value_def init_def double_round_def exponent_def
        exponent_down.simps exponent_up.simps round_half_even_def Let_def)
  have p: "0 \<le> hit_rate_value ((init 1000 3600 :: nat query_cache)\<lparr>hits := 1, misses := 2\<rparr>)"
    by (simp add: hit_rate_value_def init_def Let_def double_round_nonneg)
  have b: "hit_rate (get_stats ((init 1000 3600 :: nat query_cache)\<lparr>hits := 1, misses := 2\<rparr>)) = ''33.33%''"
    using p by (simp add: get_stats_def format_2f_def n str_nat.simps digit_chars abs_of_nonneg)
  from a v b show ?thesis by simp
qed

text \<open>
  C7, as amended. \<open>get_stats\<close> returns \<open>hits\<close>, \<open>misses\<close>, the number of entries and
  \<open>max_size\<close>, and as \<open>hit_rate\<close> a string: the percentage
  \<open>hits / (hits + misses) * 100\<close> computed in doubles, or 0 without requests, printed
  with two decimals and followed by a percent sign. For counters that are not
  negative the string is the print of some \<open>n\<close> hundredths, \<open>n\<close> from 0 to 10000, that
  differ from the exact percentage by at most half a hundredth and the rounding of the
  doubles (less than \<open>2 ^ -45\<close>); without requests it is \<open>0.00%\<close>.
\<close>

theorem get_stats_fields:
  assumes "0 \<le> hits c" and "0 \<le> misses c"
  shows "stat_hits (get_stats c) = hits c
       \<and> stat_misses (get_stats c) = misses c
       \<and> cache_size (get_stats c) = length (cache c)
       \<and> stat_max_size (get_stats c) = max_size c
       \<and> hit_rate (get_stats c) = format_2f (hit_rate_value c) @ ''%''
       \<and> (\<exists>n. n \<le> 10000
            \<and> hit_rate (get_stats c)
                = str_nat (n div 100) @ ''.''
                  @ [char_of (48 + n div 10 mod 10), char_of (48 + n mod 10)] @ ''%''
            \<and> \<bar>real n / 100
                 - (if hits c + misses c > 0
                    then 100 * (real_of_int (hits c) / real_of_int (hits c + misses c))
                    else 0)\<bar> \<le> 1 / 200 + 1 / 2 ^ 45)
       \<and> (hits c + misses c = 0 \<longrightarrow> hit_rate (get_stats c) = ''0.00%'')"
proof -
  let ?P = "if hits c + misses c > 0
            then 100 * (real_of_int (hits c) / real_of_int (hits c + misses c)) else 0"
  let ?p = "hit_rate_value c"
  have fields: "stat_hits (get_stats c) = hits c \<and> stat_misses (get_stats c) = misses c
       \<and> cache_size (get_stats c) = length (cache c) \<and> stat_max_size (get_stats c) = max_size c
       \<and> hit_rate (get_stats c) = format_2f ?p @ ''%''"
    by (simp add: get_stats_def)
  have close: "\<bar>?p - ?P\<bar> \<le> 1 / 2 ^ 45 \<and> 0 \<le> ?p"
  proof (cases "hits c + misses c > 0")
    case True
    let ?x = "real_of_int (hits c) / real_of_int (hits c + misses c)"
    have "0 \<le> ?x" using assms True by simp
    moreover have "?x \<le> 1" using assms True by simp
    ultimately have "\<bar>double_round (double_round ?x * 100) - 100 * ?x\<bar> \<le> 1 / 2 ^ 45"
      and "0 \<le> double_round (double_round ?x * 100)"
      by (rule percent_error)+
    with True show ?thesis by (simp add: hit_rate_value_def Let_def)
  next
    case False
    then show ?thesis by (simp add: hit_rate_value_def Let_def)
  qed
  have P100: "?P \<le> 100" "0 \<le> ?P" using assms by (auto simp: divide_le_eq)
  define n where "n = nat (round_half_even (\<bar>?p\<bar> * 100))"
  have "0 \<le> round_half_even (?p * 100)"
    using close by (intro round_half_even_nonneg) simp
  then have rn: "real n = real_of_int (round_half_even (?p * 100))"
    using close by (simp add: n_def abs_of_nonneg)
  have "\<bar>real_of_int (round_half_even (?p * 100)) - ?p * 100\<bar> \<le> 1 / 2"
    by (rule round_half_even_error)
  then have e3: "\<bar>real n / 100 - ?p\<bar> \<le> 1 / 200" unfolding rn by linarith
  with close have err: "\<bar>real n / 100 - ?P\<bar> \<le> 1 / 200 + 1 / 2 ^ 45" by linarith
  have "real n / 100 \<le> 100 + (1 / 200 + 1 / 2 ^ 45)" using err P100 by linarith
  then have "real n < 10001" by simp
  then have n_le: "n \<le> 10000" by simp
  have str: "hit_rate (get_stats c)
      = str_nat (n div 100) @ ''.''
        @ [char_of (48 + n div 10 mod 10), char_of (48 + n mod 10)] @ ''%''"
    using close by (simp add: get_stats_def format_2f_def n_def Let_def)
  have zero: "hit_rate (get_stats c) = ''0.00%''" if "hits c + misses c = 0"
    using that
    by (simp add: get_stats_def hit_rate_value_def format_2f_def round_half_even_def
        str_nat.simps digit_chars)
  from fields n_le str err zero show ?thesis by blast
qed

theorem get_stats_fields_witness:
  "hit_rate (get_stats ((init 1000 3600 :: nat query_cache)\<lparr>hits := 23, misses := 137\<rparr>))
     = ''14.37%''"
proof -
  let ?c = "(init 1000 3600 :: nat query_cache)\<lparr>hits := 23, misses := 137\<rparr>"
  have "0 \<le> hits ?c" "0 \<le> misses ?c" by (simp_all add: init_def)
  from get_stats_fields [OF this]
  have s: "hit_rate (get_stats ?c) = format_2f (hit_rate_value ?c) @ ''%''" by blast
  have v: "hit_rate_value ?c = 8092405580431359 / 2 ^ 49"
    by (simp add: hit_rate_value_def init_def double_round_def exponent_def
        exponent_down.simps exponent_up.simps round_half_even_def Let_def)
  have "format_2f (8092405580431359 / 2 ^ 49) = ''14.37''"
    by (simp add: format_2f_def round_half_even_def str_nat.simps digit_chars)
  with s v show ?thesis by simp
qed

text \<open>
  C8. The key of a query depends on the query only through \<open>strip (lower query)\<close>:
  two queries with the same normal form have the same key for every \<open>top_k\<close>, and
  after a \<open>put\<close> of one of them that went through, a \<open>get\<close> of either with the same
  \<open>top_k\<close>, before the entry expires, returns the stored value and counts one hit.
  \<open>"Hello "\<close> and \<open>"hello"\<close> are such a pair, both with the normal form \<open>hello\<close>.
  Lowering a query, or putting whitespace before and after it, does not change its
  key. And where the digest tells apart different strings, two queries have the same
  key only if their normal forms are the same.
\<close>

theorem key_normalization:
  assumes "put digest c q v k t t0 = Inr c'"
    and "\<not> (t1 - t0 > ttl_or_default c t)"
    and "strip (lower q') = strip (lower q)"
  shows "generate_key digest q' k = generate_key digest q k
       \<and> fst (get digest c' q' k t1) = Some v
       \<and> fst (get digest c' q k t1) = Some v
       \<and> hits (snd (get digest c' q' k t1)) = hits c' + 1
       \<and> hits (snd (get digest c' q k t1)) = hits c' + 1
       \<and> generate_key digest ''Hello '' k = generate_key digest ''hello'' k
       \<and> strip (lower ''Hello '') = ''hello''
       \<and> generate_key digest (lower s) k = generate_key digest s k
       \<and> ((\<forall>x \<in> set ws. isspace x) \<and> (\<forall>x \<in> set ws'. isspace x)
            \<longrightarrow> generate_key digest (ws @ s @ ws') k = generate_key digest s k)
       \<and> (inj (\<lambda>x. digest x k)
            \<longrightarrow> (generate_key digest q1 k = generate_key digest q2 k
                  \<longleftrightarrow> strip (lower q1) = strip (lower q2)))"
proof -
  have keys: "generate_key digest q' k = generate_key digest q k"
    using assms(3) by (simp add: generate_key_def)
  from assms(1) have "map_of (cache c') (generate_key digest q k)
      = Some \<lparr>data = v, timestamp = t0, ttl = ttl_or_default c t\<rparr>"
    by (auto simp: put_def Let_def AList.update_conv' split: if_splits sum.splits)
  with assms(2) have hit: "get digest c' q k t1 = (Some v, c'\<lparr>hits := hits c' + 1\<rparr>)"
    by (simp add: get_def is_expired_def)
  have same: "get digest c' q' k t1 = get digest c' q k t1"
    using keys by (simp add: get_def)
  have hello: "generate_key digest ''Hello '' k = generate_key digest ''hello'' k"
    "strip (lower ''Hello '') = ''hello''"
    by (simp_all add: generate_key_def norm_hello)
  have fold: "generate_key digest (lower s) k = generate_key digest s k"
    by (simp add: generate_key_def lower_idem)
  have trim: "(\<forall>x \<in> set ws. isspace x) \<and> (\<forall>x \<in> set ws'. isspace x)
      \<longrightarrow> generate_key digest (ws @ s @ ws') k = generate_key digest s k"
  proof
    assume sp: "(\<forall>x \<in> set ws. isspace x) \<and> (\<forall>x \<in> set ws'. isspace x)"
    then have "lower ws = ws" "lower ws' = ws'" by (simp_all add: lower_spaces)
    then have "lower (ws @ s @ ws') = ws @ lower s @ ws'" by (simp add: lower_append)
    moreover have "strip (ws @ lower s @ ws') = strip (lower s)"
      using sp by (intro strip_spaces) simp_all
    ultimately show "generate_key digest (ws @ s @ ws') k = generate_key digest s k"
      by (simp add: generate_key_def)
  qed
  have conv: "inj (\<lambda>x. digest x k)
      \<longrightarrow> (generate_key digest q1 k = generate_key digest q2 k
            \<longleftrightarrow> strip (lower q1) = strip (lower q2))"
  proof
    assume "inj (\<lambda>x. digest x k)"
    from inj_eq [OF this, of "strip (lower q1)" "strip (lower q2)"]
    show "generate_key digest q1 k = generate_key digest q2 k
        \<longleftrightarrow> strip (lower q1) = strip (lower q2)"
      by (simp add: generate_key_def)
  qed
  have g1: "fst (get digest c' q' k t1) = Some v"
    and g2: "hits (snd (get digest c' q' k t1)) = hits c' + 1"
    using hit same by simp_all
  have g3: "fst (get digest c' q k t1) = Some v"
    and g4: "hits (snd (get digest c' q k t1)) = hits c' + 1"
    using hit by simp_all
  show ?thesis
    by (intro conjI) (fact keys g1 g2 g3 g4 hello fold trim conv)+
qed

theorem key_normalization_witness:
  "fst (get (\<lambda>q k. q) \<lparr>cache = [(''hello'', \<lparr>data = (7::nat), timestamp = 10, ttl = 3600\<rparr>)],
          max_size = 1000, default_ttl = 3600, hits = 0, misses = 0\<rparr> ''Hello '' 5 11) = Some 7
   \<and> generate_key (\<lambda>q k. q) (''  '' @ ''hello'' @ '' '') 5 = generate_key (\<lambda>q k. q) ''hello'' 5
   \<and> generate_key (\<lambda>q k. q) ''hello'' 5 \<noteq> generate_key (\<lambda>q k. q) ''help'' 5"
proof -
  let ?c' = "\<lparr>cache = [(''hello'', \<lparr>data = (7::nat), timestamp = 10, ttl = 3600\<rparr>)],
          max_size = 1000, default_ttl = 3600, hits = 0, misses = 0\<rparr>"
  have p: "put (\<lambda>q k. q) (init 1000 3600) ''hello'' (7::nat) 5 None 10 = Inr ?c'"
    by (simp add: put_def init_def generate_key_def norm_hello ttl_or_default_def)
  have t: "\<not> (11 - 10 > ttl_or_default (init 1000 3600 :: nat query_cache) None)"
    by (simp add: ttl_or_default_def init_def)
  have n: "strip (lower ''Hello '') = strip (lower ''hello'')"
    by (simp add: norm_hello)
  note inst = key_normalization [OF p t n, where ws = "''  ''" and ws' = "'' ''" and s = "''hello''"
      and ?q1.0 = "''hello''" and ?q2.0 = "''help''"]
  have sp: "(\<forall>x \<in> set ''  ''. isspace x) \<and> (\<forall>x \<in> set '' ''. isspace x)"
    by (simp add: isspace_blank)
  have i: "inj (\<lambda>x :: string. x)" by simp
  have d: "strip (lower ''hello'') \<noteq> strip (lower ''help'')"
    by (simp add: norm_hello norm_help)
  from inst have a: "fst (get (\<lambda>q k. q) ?c' ''Hello '' 5 11) = Some 7" by (rule conjunct2 [THEN conjunct1])
  from inst sp have b: "generate_key (\<lambda>q k. q) (''  '' @ ''hello'' @ '' '') 5
      = generate_key (\<lambda>q k. q) ''hello'' 5" by blast
  from inst i d have c: "generate_key (\<lambda>q k. q) ''hello'' 5 \<noteq> generate_key (\<lambda>q k. q) ''help'' 5"
    by blast
  from a b c show ?thesis by (intro conjI)
qed

text \<open>
  C9. On a fresh cache with room for an entry, \<open>put(q, v, k)\<close> followed by two
  \<open>get(q, k)\<close> before the entry expires gives \<open>hits = 2\<close> and \<open>misses = 0\<close>, and a
  further \<open>get\<close> of a query with another key gives \<open>misses = 1\<close>. In any cache, \<open>get\<close>
  never lowers \<open>hits\<close> or \<open>misses\<close>, \<open>put\<close> leaves both as they are, and \<open>clear\<close> sets
  both to zero.
\<close>

theorem hit_miss_accounting:
  fixes c :: "'a query_cache" and v :: 'a
  assumes "1 \<le> N"
    and "\<not> (t1 - t0 > ttl_or_default (init N d :: 'a query_cache) t)"
    and "\<not> (t2 - t0 > ttl_or_default (init N d :: 'a query_cache) t)"
    and "generate_key digest other k \<noteq> generate_key digest q k"
  shows "(\<exists>c1. put digest (init N d) q v k t t0 = Inr c1
          \<and> fst (get digest c1 q k t1) = Some v
          \<and> fst (get digest (snd (get digest c1 q k t1)) q k t2) = Some v
          \<and> hits (snd (get digest (snd (get digest c1 q k t1)) q k t2)) = 2
          \<and> misses (snd (get digest (snd (get digest c1 q k t1)) q k t2)) = 0
          \<and> fst (get digest (snd (get digest (snd (get digest c1 q k t1)) q k t2)) other k t3) = None
          \<and> hits (snd (get digest (snd (get digest (snd (get digest c1 q k t1)) q k t2)) other k t3)) = 2
          \<and> misses (snd (get digest (snd (get digest (snd (get digest c1 q k t1)) q k t2)) other k t3)) = 1)
       \<and> hits c \<le> hits (snd (get digest c q' k' now))
       \<and> misses c \<le> misses (snd (get digest c q' k' now))
       \<and> (\<forall>c'. put digest c q' v' k' t' now = Inr c' \<longrightarrow> hits c' = hits c \<and> misses c' = misses c)
       \<and> hits (clear c) = 0 \<and> misses (clear c) = 0"
proof -
  let ?key = "generate_key digest q k"
  let ?e = "\<lparr>data = v, timestamp = t0, ttl = ttl_or_default (init N d :: 'a query_cache) t\<rparr>"
  let ?c1 = "\<lparr>cache = [(?key, ?e)], max_size = N, default_ttl = d, hits = 0, misses = 0\<rparr>"
  let ?c2 = "\<lparr>cache = [(?key, ?e)], max_size = N, default_ttl = d, hits = 1, misses = 0\<rparr>"
  let ?c3 = "\<lparr>cache = [(?key, ?e)], max_size = N, default_ttl = d, hits = 2, misses = 0\<rparr>"
  let ?c4 = "\<lparr>cache = [(?key, ?e)], max_size = N, default_ttl = d, hits = 2, misses = 1\<rparr>"
  have p: "put digest (init N d) q v k t t0 = Inr ?c1"
    using assms(1) by (rule put_fresh)
  have g1: "get digest ?c1 q k t1 = (Some v, ?c2)"
    using assms(2) by (simp add: get_def is_expired_def)
  have g2: "get digest ?c2 q k t2 = (Some v, ?c3)"
    using assms(3) by (simp add: get_def is_expired_def)
  have g3: "get digest ?c3 other k t3 = (None, ?c4)"
    using assms(4) by (simp add: get_def)
  have scenario: "\<exists>c1. put digest (init N d) q v k t t0 = Inr c1
          \<and> fst (get digest c1 q k t1) = Some v
          \<and> fst (get digest (snd (get digest c1 q k t1)) q k t2) = Some v
          \<and> hits (snd (get digest (snd (get digest c1 q k t1)) q k t2)) = 2
          \<and> misses (snd (get digest (snd (get digest c1 q k t1)) q k t2)) = 0
          \<and> fst (get digest (snd (get digest (snd (get digest c1 q k t1)) q k t2)) other k t3) = None
          \<and> hits (snd (get digest (snd (get digest (snd (get digest c1 q k t1)) q k t2)) other k t3)) = 2
          \<and> misses (snd (get digest (snd (get digest (snd (get digest c1 q k t1)) q k t2)) other k t3)) = 1"
    by (rule exI [of _ ?c1]) (simp add: p g1 g2 g3)
  have mono: "hits c \<le> hits (snd (get digest c q' k' now))
       \<and> misses c \<le> misses (snd (get digest c q' k' now))"
    by (rule get_counters)
  have unchanged: "\<forall>c'. put digest c q' v' k' t' now = Inr c' \<longrightarrow> hits c' = hits c \<and> misses c' = misses c"
    by (intro allI impI) (rule put_counters)
  have reset: "hits (clear c) = 0 \<and> misses (clear c) = 0"
    by (simp add: clear_def)
  from scenario mono unchanged reset show ?thesis by blast
qed

theorem hit_miss_accounting_witness:
  "(\<exists>c1. put (\<lambda>q k. q) (init 1000 3600) ''a'' (7::nat) 5 None 10 = Inr c1
     \<and> hits (snd (get (\<lambda>q k. q) (snd (get (\<lambda>q k. q) c1 ''a'' 5 11)) ''a'' 5 12)) = 2
     \<and> misses (snd (get (\<lambda>q k. q) (snd (get (\<lambda>q k. q) (snd (get (\<lambda>q k. q) c1 ''a'' 5 11)) ''a'' 5 12)) ''b'' 5 13)) = 1)
   \<and> (\<exists>c'. put (\<lambda>q k. q) ((init 1000 3600)\<lparr>hits := 3, misses := 4\<rparr>) ''b'' (8::nat) 5 None 20 = Inr c'
          \<and> hits c' = 3 \<and> misses c' = 4)"
proof -
  have 1: "(1::int) \<le> 1000" by simp
  have 2: "\<not> (11 - 10 > ttl_or_default (init 1000 3600 :: nat query_cache) None)"
    by (simp add: ttl_or_default_def init_def)
  have 3: "\<not> (12 - 10 > ttl_or_default (init 1000 3600 :: nat query_cache) None)"
    by (simp add: ttl_or_default_def init_def)
  have 4: "generate_key (\<lambda>q k. q) ''b'' 5 \<noteq> generate_key (\<lambda>q k. q) ''a'' 5"
    by (simp add: generate_key_def norm_abc)
  let ?c = "(init 1000 3600 :: nat query_cache)\<lparr>hits := 3, misses := 4\<rparr>"
  note inst = hit_miss_accounting [OF 1 2 3 4, where v = 7 and ?t3.0 = 13 and c = ?c
      and q' = "''b''" and v' = 8 and k' = 5 and t' = None and now = 20]
  let ?c' = "\<lparr>cache = [(''b'', \<lparr>data = 8::nat, timestamp = 20, ttl = 3600\<rparr>)],
             max_size = 1000, default_ttl = 3600, hits = 3, misses = 4\<rparr>"
  have p: "put (\<lambda>q k. q) ?c ''b'' 8 5 None 20 = Inr ?c'"
    by (simp add: put_def init_def generate_key_def norm_abc ttl_or_default_def)
  with inst have "hits ?c' = hits ?c \<and> misses ?c' = misses ?c" by blast
  then have "hits ?c' = 3 \<and> misses ?c' = 4" by (simp add: init_def)
  with p have "\<exists>c'. put (\<lambda>q k. q) ?c ''b'' 8 5 None 20 = Inr c' \<and> hits c' = 3 \<and> misses c' = 4"
    by (intro exI [of _ ?c']) simp
  with inst show ?thesis by blast
qed

text \<open>
  C10. With an empty list of documents \<open>add_documents\<close> returns the empty list and
  leaves the store as it was: no call to the embedding provider, none to the
  collection.
\<close>

theorem add_documents_empty:
  "add_documents svc hash [] ids s = (Inr [], s)
   \<and> calls (snd (add_documents svc hash [] ids s)) = calls s
   \<and> collection (snd (add_documents svc hash [] ids s)) = collection s"
  by (simp add: add_documents_def)

theorem add_documents_empty_witness:
  "add_documents (mem_service no_faults) (\<lambda>t. 0) [] None \<lparr>collection = [], calls = []\<rparr>
     = (Inr [], \<lparr>collection = [], calls = []\<rparr>)"
  using add_documents_empty [of "mem_service no_faults" "\<lambda>t. 0" None "\<lparr>collection = [], calls = []\<rparr>"]
  by simp

end
